theory Spec2Isabelle
  imports Main
begin

unbundle bit_operations_syntax

section \<open>Breadboard EEPROM programmer (bbeeprog.py)\<close>

text \<open>
  A shallow embedding of \<^verbatim>\<open>src/bbeeprog.py\<close>. Python integers are \<^typ>\<open>int\<close>; the
  operators \<^verbatim>\<open>&\<close>, \<^verbatim>\<open>|\<close>, \<^verbatim>\<open><<\<close> and \<^verbatim>\<open>>>\<close> are \<open>AND\<close>, \<open>OR\<close>,
  \<^const>\<open>push_bit\<close> and \<^const>\<open>drop_bit\<close> on \<^typ>\<open>int\<close> (two's complement of unbounded
  width, as in Python). Every \<^verbatim>\<open>assert\<close> and every exception of the source is a
  branch that returns an error value.
\<close>

datatype error = AssertionError | ValueError | UnboundLocalError

subsection \<open>class SN74LV8153\<close>

text \<open>
  The fields \<^verbatim>\<open>_addr\<close> (here \<open>chip_addr\<close>) and \<^verbatim>\<open>_last_value\<close>. The field \<^verbatim>\<open>_serial\<close> is a reference to
  the serial port that all chips of a programmer share; the port is a field of the
  programmer's state below and is passed to \<open>SN74LV8153_write\<close> explicitly.
\<close>

record SN74LV8153 =
  chip_addr :: int
  last_value :: int

definition MIN_BAUD_RATE :: int where
  "MIN_BAUD_RATE = 2000"

definition MAX_BAUD_RATE :: int where
  "MAX_BAUD_RATE = 24000"

text \<open>\<^verbatim>\<open>SN74LV8153.__init__(serial, addr)\<close>, given the port's baud rate.\<close>

definition SN74LV8153_init :: "int \<Rightarrow> int \<Rightarrow> error + SN74LV8153" where
  "SN74LV8153_init baudrate a =
     (if \<not> (MIN_BAUD_RATE \<le> baudrate \<and> baudrate \<le> MAX_BAUD_RATE) then Inl AssertionError
      else if \<not> (0 \<le> a \<and> a < 8) then Inl AssertionError
      else Inr \<lparr>chip_addr = a, last_value = - 1\<rparr>)"

text \<open>
  Python's \<^verbatim>\<open>bytes([...])\<close>: a \<^verbatim>\<open>ValueError\<close> unless every element is in
  \<^verbatim>\<open>range(256)\<close>.
\<close>

definition bytes :: "int list \<Rightarrow> error + int list" where
  "bytes xs = (if list_all (\<lambda>x. 0 \<le> x \<and> x < 256) xs then Inr xs else Inl ValueError)"

text \<open>
  \<^verbatim>\<open>SN74LV8153._protocol(addr, value)\<close>. In Python the shifts bind tighter than
  \<^verbatim>\<open>|\<close>, and \<^verbatim>\<open>(value & 0x0F)\<close> is parenthesised in the source.
\<close>

definition protocol :: "int \<Rightarrow> int \<Rightarrow> error + int list" where
  "protocol a v =
     (let low_nibble = (push_bit 4 (v AND 0x0F) OR push_bit 1 a) OR 1;
          high_nibble = (push_bit 4 (drop_bit 4 v) OR push_bit 1 a) OR 1
      in bytes [low_nibble, high_nibble])"

text \<open>
  \<^verbatim>\<open>SN74LV8153.write(value)\<close>. The first argument is the content of the shared serial
  port: the bytes handed to \<^verbatim>\<open>serial.write\<close> so far, oldest first. The result is
  the port and the chip after the call.
\<close>

definition SN74LV8153_write ::
    "int list \<Rightarrow> SN74LV8153 \<Rightarrow> int \<Rightarrow> error + (int list \<times> SN74LV8153)" where
  "SN74LV8153_write ser c v0 =
     (let v = v0 AND 0xFF in
      if v = last_value c then Inr (ser, c)
      else (case protocol (chip_addr c) v of
              Inl e \<Rightarrow> Inl e
            | Inr telegrams \<Rightarrow> Inr (ser @ telegrams, c\<lparr>last_value := v\<rparr>)))"

text \<open>The constructor's assertion on the chip address, as an invariant of the object.\<close>

definition valid_chip :: "SN74LV8153 \<Rightarrow> bool" where
  "valid_chip c = (0 \<le> chip_addr c \<and> chip_addr c < 8)"

subsection \<open>class BbEeProg\<close>

text \<open>The three chips of a programmer: \<^verbatim>\<open>_addr_lo\<close>, \<^verbatim>\<open>_addr_hi\<close> and \<^verbatim>\<open>_data\<close>.\<close>

datatype chan = AddrLo | AddrHi | Data

text \<open>
  The lines that \<^verbatim>\<open>BbEeProg.write\<close> prints, as events: \<open>Wrote start end count\<close> for
  \<^verbatim>\<open>"{start:04x}...{end:04x}: Wrote {count} byte"\<close>, \<open>Skipped start end count\<close> for
  \<^verbatim>\<open>"{start:04x}...{end:04x}: Skipped {count} byte (no change)"\<close>, and \<open>NothingToDo\<close>
  for \<^verbatim>\<open>"Nothing to do (no changes)"\<close>.
\<close>

datatype report = Wrote int int int | Skipped int int int | NothingToDo

text \<open>
  The programmer and the world it acts on.
  \<^item> \<open>serial_port\<close>, \<open>addr_lo\<close>, \<open>addr_hi\<close>, \<open>data\<close> and \<open>dt_last_write\<close> are the
    object's fields; \<open>serial\<close> is the content of the one \<^verbatim>\<open>pyserial.Serial\<close> object
    that the three chips share: every byte written to it so far, oldest first.
  \<^item> \<open>clock\<close> is the clock that \<^verbatim>\<open>datetime.datetime.now()\<close> reads, in microseconds
    (the resolution of \<^verbatim>\<open>datetime\<close>), and \<open>stdout\<close> the lines printed so far.
  \<^item> \<open>chip_writes\<close> and \<open>byte_writes\<close> are traces that no function reads: every call
    of a chip's \<^verbatim>\<open>write\<close> made by the programmer, as (clock at the call, chip,
    argument), and every call of \<^verbatim>\<open>write_byte\<close>, as (address, byte).
\<close>

record BbEeProg =
  serial_port :: string
  serial :: "int list"
  addr_lo :: SN74LV8153
  addr_hi :: SN74LV8153
  data :: SN74LV8153
  dt_last_write :: int
  clock :: int
  stdout :: "report list"
  chip_writes :: "(int \<times> chan \<times> int) list"
  byte_writes :: "(int \<times> int) list"

definition ADDR_HI_WRITE_DISABLE_BIT :: int where
  "ADDR_HI_WRITE_DISABLE_BIT = push_bit 7 1"

definition WRITE_CYCLE_MS :: int where
  "WRITE_CYCLE_MS = 10 + 5"

text \<open>\<^verbatim>\<open>datetime.timedelta(milliseconds=n)\<close>, in microseconds.\<close>

definition timedelta_ms :: "int \<Rightarrow> int" where
  "timedelta_ms n = 1000 * n"

text \<open>
  The clock is a mocked one: \<^verbatim>\<open>datetime.datetime.now()\<close> reads it and
  \<^verbatim>\<open>time.sleep(delay)\<close> advances it by the delay asked for. The source passes the
  delay through \<^verbatim>\<open>total_seconds()\<close>, as a float of seconds; here it stays in whole
  microseconds, which is the same delay as long as the float carries it exactly. It does
  for the delays that the results about time are stated for, which are of at most one
  write cycle (15000 microseconds). A float of seconds drops microseconds from a delay of
  about \<open>2^53\<close> microseconds on; \<open>sleep\<close> does not describe the source there, and
  the results about time leave such delays out.
\<close>

definition now :: "BbEeProg \<Rightarrow> int" where
  "now s = clock s"

definition sleep :: "BbEeProg \<Rightarrow> int \<Rightarrow> BbEeProg" where
  "sleep s delay = s\<lparr>clock := clock s + delay\<rparr>"

definition print :: "BbEeProg \<Rightarrow> report \<Rightarrow> BbEeProg" where
  "print s line = s\<lparr>stdout := stdout s @ [line]\<rparr>"

fun chip_of :: "BbEeProg \<Rightarrow> chan \<Rightarrow> SN74LV8153" where
  "chip_of s AddrLo = addr_lo s"
| "chip_of s AddrHi = addr_hi s"
| "chip_of s Data = data s"

fun chip_update :: "BbEeProg \<Rightarrow> chan \<Rightarrow> SN74LV8153 \<Rightarrow> BbEeProg" where
  "chip_update s AddrLo c = s\<lparr>addr_lo := c\<rparr>"
| "chip_update s AddrHi c = s\<lparr>addr_hi := c\<rparr>"
| "chip_update s Data c = s\<lparr>data := c\<rparr>"

text \<open>
  A call \<^verbatim>\<open>self._<chip>.write(v)\<close> made by the programmer: the call is logged, the
  chip writes to the shared port, and an exception leaves with the state it was raised in.
\<close>

definition chip_write :: "BbEeProg \<Rightarrow> chan \<Rightarrow> int \<Rightarrow> error \<times> BbEeProg + BbEeProg" where
  "chip_write s0 ch v =
     (let s = s0\<lparr>chip_writes := chip_writes s0 @ [(now s0, ch, v)]\<rparr> in
      case SN74LV8153_write (serial s) (chip_of s ch) v of
        Inl e \<Rightarrow> Inl (e, s)
      | Inr (ser, c) \<Rightarrow> Inr (chip_update (s\<lparr>serial := ser\<rparr>) ch c))"

text \<open>Sequencing of statements that may raise.\<close>

definition and_then :: "'e + 'a \<Rightarrow> ('a \<Rightarrow> 'e + 'b) \<Rightarrow> 'e + 'b" where
  "and_then r f = (case r of Inl e \<Rightarrow> Inl e | Inr x \<Rightarrow> f x)"

text \<open>
  \<^verbatim>\<open>BbEeProg.__enter__\<close>, for a port that opens at \<^verbatim>\<open>MAX_BAUD_RATE\<close> with the clock
  at \<open>t0\<close>. \<open>dt_last_write\<close> has no value in the source until the last statement
  assigns it; nothing reads it before.
\<close>

definition enter :: "string \<Rightarrow> int \<Rightarrow> error + BbEeProg" where
  "enter tty_dev t0 =
     and_then (SN74LV8153_init MAX_BAUD_RATE 0) (\<lambda>lo.
     and_then (SN74LV8153_init MAX_BAUD_RATE 1) (\<lambda>hi.
     and_then (SN74LV8153_init MAX_BAUD_RATE 2) (\<lambda>d.
       (case chip_write
               \<lparr>serial_port = tty_dev, serial = [], addr_lo = lo, addr_hi = hi, data = d,
                dt_last_write = t0, clock = t0, stdout = [], chip_writes = [],
                byte_writes = []\<rparr>
               AddrHi ADDR_HI_WRITE_DISABLE_BIT of
          Inl (e, s) \<Rightarrow> Inl e
        | Inr s \<Rightarrow> Inr (s\<lparr>dt_last_write := now s\<rparr>)))))"

text \<open>\<^verbatim>\<open>BbEeProg.write_byte(addr, byte)\<close>.\<close>

definition write_byte :: "BbEeProg \<Rightarrow> int \<Rightarrow> int \<Rightarrow> error \<times> BbEeProg + BbEeProg" where
  "write_byte s0 addr byte =
     (let s = s0\<lparr>byte_writes := byte_writes s0 @ [(addr, byte)]\<rparr> in
      if \<not> addr \<le> 0x7FFF then Inl (AssertionError, s)
      else
        and_then (chip_write s Data byte) (\<lambda>s.
        and_then (chip_write s AddrLo (addr AND 0xFF)) (\<lambda>s.
        and_then (chip_write s AddrHi (drop_bit 8 addr OR ADDR_HI_WRITE_DISABLE_BIT)) (\<lambda>s.
          let delay = (dt_last_write s + timedelta_ms WRITE_CYCLE_MS) - now s;
              s = (if delay > 0 then sleep s delay else s)
          in
        and_then (chip_write s AddrHi (drop_bit 8 addr)) (\<lambda>s.
        and_then (chip_write s AddrHi (drop_bit 8 addr OR ADDR_HI_WRITE_DISABLE_BIT)) (\<lambda>s.
          Inr (s\<lparr>dt_last_write := now s\<rparr>)))))))"

text \<open>\<^verbatim>\<open>itertools.zip_longest\<close> of two finite sequences, with the fill value \<^verbatim>\<open>None\<close>.\<close>

fun zip_longest :: "'a list \<Rightarrow> 'b list \<Rightarrow> ('a option \<times> 'b option) list" where
  "zip_longest [] [] = []"
| "zip_longest (x # xs) [] = (Some x, None) # zip_longest xs []"
| "zip_longest [] (y # ys) = (None, Some y) # zip_longest [] ys"
| "zip_longest (x # xs) (y # ys) = (Some x, Some y) # zip_longest xs ys"

text \<open>
  The \<^verbatim>\<open>for\<close> loop of \<^verbatim>\<open>BbEeProg.write\<close>, over the pairs that are left. \<open>addr\<close> is
  the counter of \<^verbatim>\<open>enumerate\<close> for the next pair, and \<open>addr_var\<close> the value of the
  Python variable \<^verbatim>\<open>addr\<close> (\<open>None\<close> while it is unbound). The loop returns the
  variables that the code after it reads.
\<close>

fun write_loop ::
    "BbEeProg \<Rightarrow> bool \<Rightarrow> int \<Rightarrow> int option \<Rightarrow> int \<Rightarrow> (int option \<times> int option) list \<Rightarrow>
       error \<times> BbEeProg + BbEeProg \<times> bool \<times> int \<times> int option" where
  "write_loop s last_chunk_was_old last_chunk_start addr_var addr [] =
     Inr (s, last_chunk_was_old, last_chunk_start, addr_var)"
| "write_loop s last_chunk_was_old last_chunk_start addr_var addr ((byte, old_byte) # rest) =
     (if \<not> addr < 2 ^ 15 then Inl (AssertionError, s)
      else
        (case byte of
           None \<Rightarrow> Inr (s, last_chunk_was_old, last_chunk_start, Some addr)
         | Some b \<Rightarrow>
             if byte = old_byte then
               (if \<not> last_chunk_was_old then
                  write_loop
                    (if addr \<noteq> 0
                     then print s (Wrote last_chunk_start (addr - 1) (addr - last_chunk_start))
                     else s)
                    True addr (Some addr) (addr + 1) rest
                else
                  write_loop s last_chunk_was_old last_chunk_start (Some addr) (addr + 1) rest)
             else
               (if last_chunk_was_old then
                  and_then
                    (write_byte
                       (print s (Skipped last_chunk_start (addr - 1) (addr - last_chunk_start)))
                       addr b)
                    (\<lambda>s. write_loop s False addr (Some addr) (addr + 1) rest)
                else
                  and_then (write_byte s addr b)
                    (\<lambda>s. write_loop s last_chunk_was_old last_chunk_start (Some addr)
                           (addr + 1) rest))))"

text \<open>
  \<^verbatim>\<open>BbEeProg.write(data, old_data)\<close>; the call without a second argument is
  \<open>BbEeProg_write s new_data []\<close>. Reading the unbound \<^verbatim>\<open>addr\<close> while the line to print is
  formatted raises \<^verbatim>\<open>UnboundLocalError\<close>.
\<close>

definition BbEeProg_write ::
    "BbEeProg \<Rightarrow> int list \<Rightarrow> int list \<Rightarrow> error \<times> BbEeProg + BbEeProg" where
  "BbEeProg_write s0 new_data old_data =
     and_then (write_loop s0 False 0 None 0 (zip_longest new_data old_data))
       (\<lambda>(s, last_chunk_was_old, last_chunk_start, addr_var).
          if \<not> last_chunk_was_old then
            (case addr_var of
               None \<Rightarrow> Inl (UnboundLocalError, s)
             | Some addr \<Rightarrow>
                 Inr (print s (Wrote last_chunk_start addr (addr + 1 - last_chunk_start))))
          else if last_chunk_start = 0 then Inr (print s NothingToDo)
          else
            (case addr_var of
               None \<Rightarrow> Inl (UnboundLocalError, s)
             | Some addr \<Rightarrow>
                 Inr (print s (Skipped last_chunk_start addr (addr + 1 - last_chunk_start)))))"

text \<open>The state a call leaves behind, whether it returns or raises.\<close>

fun state_after :: "error \<times> BbEeProg + BbEeProg \<Rightarrow> BbEeProg" where
  "state_after (Inl (e, s)) = s"
| "state_after (Inr s) = s"

text \<open>Every chip of the programmer passed its constructor's assertion.\<close>

definition valid_session :: "BbEeProg \<Rightarrow> bool" where
  "valid_session s = (valid_chip (addr_lo s) \<and> valid_chip (addr_hi s) \<and> valid_chip (data s))"

text \<open>
  What a call \<^verbatim>\<open>write(v0)\<close> of a chip puts on the wire, as the results below state it:
  nothing when the masked value is the chip's last value, else the two telegrams.
\<close>

definition telegrams_sent :: "SN74LV8153 \<Rightarrow> int \<Rightarrow> int list" where
  "telegrams_sent c v0 =
     (let v = v0 AND 0xFF in
      if v = last_value c then []
      else [(push_bit 4 (v AND 0x0F) OR push_bit 1 (chip_addr c)) OR 1,
            (push_bit 4 (drop_bit 4 v) OR push_bit 1 (chip_addr c)) OR 1])"

text \<open>
  The calls of \<^verbatim>\<open>write_byte\<close> that the loop is to make for the pairs it is given, from
  the address \<open>addr\<close> on, as the results below state them: up to the first pair whose
  primary byte is missing, one call for each pair whose bytes differ.
\<close>

fun expected_writes :: "int \<Rightarrow> (int option \<times> int option) list \<Rightarrow> (int \<times> int) list" where
  "expected_writes addr [] = []"
| "expected_writes addr ((None, old_byte) # rest) = []"
| "expected_writes addr ((Some b, old_byte) # rest) =
     (if Some b = old_byte then [] else [(addr, b)]) @ expected_writes (addr + 1) rest"

text \<open>The exception a call ends with, if any.\<close>

fun raised :: "error \<times> BbEeProg + BbEeProg \<Rightarrow> error option" where
  "raised (Inl (e, s)) = Some e"
| "raised (Inr s) = None"

section \<open>The wire encoding\<close>

lemma nibble_telegram_range:
  fixes a n :: int
  assumes a: "0 \<le> a" "a < 8" and n: "0 \<le> n" "n < 16"
  shows "0 \<le> (push_bit 4 n OR push_bit 1 a) OR 1"
    and "(push_bit 4 n OR push_bit 1 a) OR 1 < 256"
proof -
  have nonneg: "0 \<le> push_bit 4 n OR push_bit 1 a"
    using a n by simp
  then show "0 \<le> (push_bit 4 n OR push_bit 1 a) OR 1"
    by simp
  have p4: "push_bit 4 n < 2 ^ 8"
    using n by (simp add: push_bit_eq_mult)
  have p1: "push_bit 1 a < 2 ^ 8"
    using a by (simp add: push_bit_eq_mult)
  have p0: "0 \<le> push_bit 4 n"
    using n by simp
  have both: "push_bit 4 n OR push_bit 1 a < 2 ^ 8"
    by (rule OR_upper [OF p0 p4 p1])
  have one: "(1::int) < 2 ^ 8"
    by simp
  have "(push_bit 4 n OR push_bit 1 a) OR 1 < 2 ^ 8"
    by (rule OR_upper [OF nonneg both one])
  then show "(push_bit 4 n OR push_bit 1 a) OR 1 < 256"
    by simp
qed

lemma low_nibble_range:
  fixes v :: int
  shows "0 \<le> v AND 0x0F" and "v AND 0x0F < 16"
proof -
  show "0 \<le> v AND 0x0F" by simp
  have "v AND 0x0F \<le> 0x0F" by (rule AND_upper2) simp
  then show "v AND 0x0F < 16" by simp
qed

lemma high_nibble_range:
  fixes v :: int
  assumes "0 \<le> v" "v < 256"
  shows "0 \<le> drop_bit 4 v" and "drop_bit 4 v < 16"
  using assms by (simp_all add: drop_bit_eq_div)

lemma protocol_valid:
  assumes "0 \<le> a" "a < 8" "0 \<le> v" "v < 256"
  shows "protocol a v =
           Inr [(push_bit 4 (v AND 0x0F) OR push_bit 1 a) OR 1,
                (push_bit 4 (drop_bit 4 v) OR push_bit 1 a) OR 1]"
  using assms nibble_telegram_range [OF assms(1,2) low_nibble_range]
    nibble_telegram_range [OF assms(1,2) high_nibble_range [OF assms(3,4)]]
  by (simp add: protocol_def bytes_def)

section \<open>One chip write, one byte write\<close>

lemma masked_byte_range:
  fixes v :: int
  shows "0 \<le> v AND 0xFF" and "v AND 0xFF < 256"
proof -
  show "0 \<le> v AND 0xFF" by simp
  have "v AND 0xFF \<le> 0xFF" by (rule AND_upper2) simp
  then show "v AND 0xFF < 256" by simp
qed

lemma byte_mask_id:
  fixes v :: int
  assumes "0 \<le> v" "v < 256"
  shows "v AND 0xFF = v"
proof -
  have "take_bit 8 v = v"
    using assms by (simp add: take_bit_int_eq_self)
  moreover have "(0xFF::int) = mask 8"
    by (simp add: mask_eq_exp_minus_1)
  ultimately show ?thesis
    by (simp add: take_bit_eq_mask)
qed

lemma SN74LV8153_write_valid:
  assumes "valid_chip c"
  shows "SN74LV8153_write ser c v = Inr (ser @ telegrams_sent c v, c\<lparr>last_value := v AND 0xFF\<rparr>)"
proof (cases "v AND 0xFF = last_value c")
  case True
  then show ?thesis
    by (simp add: SN74LV8153_write_def telegrams_sent_def)
next
  case False
  have "protocol (chip_addr c) (v AND 0xFF) = Inr (telegrams_sent c v)"
    using assms False protocol_valid [OF _ _ masked_byte_range, of "chip_addr c" v]
    by (simp add: valid_chip_def telegrams_sent_def)
  with False show ?thesis
    by (simp add: SN74LV8153_write_def)
qed

lemma chip_write_valid:
  assumes "valid_session s"
  shows "chip_write s ch v =
           Inr (chip_update
                  (s\<lparr>chip_writes := chip_writes s @ [(clock s, ch, v)],
                     serial := serial s @ telegrams_sent (chip_of s ch) v\<rparr>)
                  ch ((chip_of s ch)\<lparr>last_value := v AND 0xFF\<rparr>))"
proof -
  have "valid_chip (chip_of s ch)"
    using assms by (cases ch) (simp_all add: valid_session_def)
  then show ?thesis
    by (cases ch) (simp_all add: chip_write_def now_def SN74LV8153_write_valid)
qed

lemma chip_write_effect:
  assumes "valid_session s"
  shows "\<exists>s'. chip_write s ch v = Inr s' \<and> valid_session s'
            \<and> chip_writes s' = chip_writes s @ [(clock s, ch, v)]
            \<and> last_value (chip_of s' ch) = v AND 0xFF
            \<and> clock s' = clock s \<and> dt_last_write s' = dt_last_write s
            \<and> stdout s' = stdout s \<and> byte_writes s' = byte_writes s"
  using assms
  by (cases ch) (simp_all add: chip_write_valid valid_session_def valid_chip_def)


lemma write_byte_effect:
  assumes valid: "valid_session s" and range: "addr \<le> 0x7FFF"
  defines "t \<equiv> max (clock s) (dt_last_write s + timedelta_ms WRITE_CYCLE_MS)"
  shows "\<exists>s'. write_byte s addr byte = Inr s' \<and> valid_session s'
            \<and> byte_writes s' = byte_writes s @ [(addr, byte)]
            \<and> stdout s' = stdout s
            \<and> chip_writes s' = chip_writes s @
                 [(clock s, Data, byte),
                  (clock s, AddrLo, addr AND 0xFF),
                  (clock s, AddrHi, drop_bit 8 addr OR ADDR_HI_WRITE_DISABLE_BIT),
                  (t, AddrHi, drop_bit 8 addr),
                  (t, AddrHi, drop_bit 8 addr OR ADDR_HI_WRITE_DISABLE_BIT)]
            \<and> clock s' = t \<and> dt_last_write s' = t
            \<and> last_value (addr_hi s') = (drop_bit 8 addr OR ADDR_HI_WRITE_DISABLE_BIT) AND 0xFF"
proof -
  define s0 where "s0 = s\<lparr>byte_writes := byte_writes s @ [(addr, byte)]\<rparr>"
  have v0: "valid_session s0"
    using valid by (simp add: s0_def valid_session_def)
  obtain s1 where s1: "chip_write s0 Data byte = Inr s1" "valid_session s1"
      "chip_writes s1 = chip_writes s0 @ [(clock s0, Data, byte)]"
      "clock s1 = clock s0" "dt_last_write s1 = dt_last_write s0"
      "stdout s1 = stdout s0" "byte_writes s1 = byte_writes s0"
    using chip_write_effect [OF v0, of Data byte] by blast
  obtain s2 where s2: "chip_write s1 AddrLo (addr AND 0xFF) = Inr s2" "valid_session s2"
      "chip_writes s2 = chip_writes s1 @ [(clock s1, AddrLo, addr AND 0xFF)]"
      "clock s2 = clock s1" "dt_last_write s2 = dt_last_write s1"
      "stdout s2 = stdout s1" "byte_writes s2 = byte_writes s1"
    using chip_write_effect [OF s1(2), of AddrLo "addr AND 0xFF"] by blast
  obtain s3 where s3:
      "chip_write s2 AddrHi (drop_bit 8 addr OR ADDR_HI_WRITE_DISABLE_BIT) = Inr s3"
      "valid_session s3"
      "chip_writes s3 =
         chip_writes s2 @ [(clock s2, AddrHi, drop_bit 8 addr OR ADDR_HI_WRITE_DISABLE_BIT)]"
      "clock s3 = clock s2" "dt_last_write s3 = dt_last_write s2"
      "stdout s3 = stdout s2" "byte_writes s3 = byte_writes s2"
    using chip_write_effect [OF s2(2), of AddrHi "drop_bit 8 addr OR ADDR_HI_WRITE_DISABLE_BIT"]
    by blast
  define s4 where
    "s4 = (if (dt_last_write s3 + timedelta_ms WRITE_CYCLE_MS) - now s3 > 0
           then sleep s3 ((dt_last_write s3 + timedelta_ms WRITE_CYCLE_MS) - now s3) else s3)"
  have v4: "valid_session s4"
    using s3(2) by (simp add: s4_def sleep_def valid_session_def)
  have c4: "clock s4 = t"
    using s1(4,5) s2(4,5) s3(4,5) by (simp add: s4_def sleep_def now_def t_def s0_def)
  have k4: "chip_writes s4 = chip_writes s3" "stdout s4 = stdout s3"
      "byte_writes s4 = byte_writes s3"
    by (simp_all add: s4_def sleep_def)
  obtain s5 where s5: "chip_write s4 AddrHi (drop_bit 8 addr) = Inr s5" "valid_session s5"
      "chip_writes s5 = chip_writes s4 @ [(clock s4, AddrHi, drop_bit 8 addr)]"
      "clock s5 = clock s4" "stdout s5 = stdout s4" "byte_writes s5 = byte_writes s4"
    using chip_write_effect [OF v4, of AddrHi "drop_bit 8 addr"] by blast
  obtain s6 where s6:
      "chip_write s5 AddrHi (drop_bit 8 addr OR ADDR_HI_WRITE_DISABLE_BIT) = Inr s6"
      "valid_session s6"
      "chip_writes s6 =
         chip_writes s5 @ [(clock s5, AddrHi, drop_bit 8 addr OR ADDR_HI_WRITE_DISABLE_BIT)]"
      "last_value (chip_of s6 AddrHi) = (drop_bit 8 addr OR ADDR_HI_WRITE_DISABLE_BIT) AND 0xFF"
      "clock s6 = clock s5" "stdout s6 = stdout s5" "byte_writes s6 = byte_writes s5"
    using chip_write_effect [OF s5(2), of AddrHi "drop_bit 8 addr OR ADDR_HI_WRITE_DISABLE_BIT"]
    by blast
  have tail: "and_then (chip_write s4 AddrHi (drop_bit 8 addr)) (\<lambda>s.
               and_then (chip_write s AddrHi (drop_bit 8 addr OR ADDR_HI_WRITE_DISABLE_BIT))
                 (\<lambda>s. Inr (s\<lparr>dt_last_write := now s\<rparr>)))
             = Inr (s6\<lparr>dt_last_write := now s6\<rparr>)"
    using s5(1) s6(1) by (simp add: and_then_def)
  have run: "write_byte s addr byte = Inr (s6\<lparr>dt_last_write := now s6\<rparr>)"
    unfolding write_byte_def Let_def s0_def [symmetric]
    using range s1(1) s2(1) s3(1) tail [unfolded s4_def]
    by (simp add: and_then_def)
  have "valid_session (s6\<lparr>dt_last_write := now s6\<rparr>)"
    using s6(2) by (simp add: valid_session_def)
  moreover have "chip_writes s6 = chip_writes s @
                 [(clock s, Data, byte),
                  (clock s, AddrLo, addr AND 0xFF),
                  (clock s, AddrHi, drop_bit 8 addr OR ADDR_HI_WRITE_DISABLE_BIT),
                  (t, AddrHi, drop_bit 8 addr),
                  (t, AddrHi, drop_bit 8 addr OR ADDR_HI_WRITE_DISABLE_BIT)]"
    using s1(3,4) s2(3,4) s3(3,4) k4(1) c4 s5(3,4) s6(3) by (simp add: s0_def)
  moreover have "byte_writes s6 = byte_writes s @ [(addr, byte)]"
    using s1(7) s2(7) s3(7) k4(3) s5(6) s6(7) by (simp add: s0_def)
  moreover have "stdout s6 = stdout s"
    using s1(6) s2(6) s3(6) k4(2) s5(5) s6(6) by (simp add: s0_def)
  moreover have "clock s6 = t"
    using s6(5) s5(4) c4 by simp
  ultimately show ?thesis
    using run s6(4) by (simp add: now_def)
qed

lemma write_byte_returns:
  "write_byte s addr byte = Inr s' \<Longrightarrow> addr \<le> 0x7FFF"
  by (simp add: write_byte_def Let_def split: if_splits)

lemma enter_returns:
  "enter tty_dev t0 =
     Inr \<lparr>serial_port = tty_dev, serial = [3, 131],
          addr_lo = \<lparr>chip_addr = 0, last_value = - 1\<rparr>,
          addr_hi = \<lparr>chip_addr = 1, last_value = 128\<rparr>,
          data = \<lparr>chip_addr = 2, last_value = - 1\<rparr>,
          dt_last_write = t0, clock = t0, stdout = [],
          chip_writes = [(t0, AddrHi, 128)], byte_writes = []\<rparr>"
  by (simp add: enter_def and_then_def SN74LV8153_init_def MIN_BAUD_RATE_def
      MAX_BAUD_RATE_def chip_write_def SN74LV8153_write_def protocol_def bytes_def now_def
      ADDR_HI_WRITE_DISABLE_BIT_def)

lemma enter_valid:
  "valid_session (projr (enter tty_dev t0))"
  by (simp add: enter_returns valid_session_def valid_chip_def)

section \<open>The loop of the diff driver\<close>

lemma print_keeps:
  "valid_session (print s line) = valid_session s"
  "byte_writes (print s line) = byte_writes s"
  "serial (print s line) = serial s"
  "stdout (print s line) = stdout s @ [line]"
  by (simp_all add: print_def valid_session_def)

lemma write_byte_step:
  assumes "valid_session s" "addr \<le> 0x7FFF"
  obtains s' where "write_byte s addr byte = Inr s'" "valid_session s'"
    "byte_writes s' = byte_writes s @ [(addr, byte)]" "stdout s' = stdout s"
  using write_byte_effect [OF assms, of byte] by blast

lemma write_loop_overflow_step:
  "\<not> addr < 2 ^ 15 \<Longrightarrow>
     write_loop s was_old start av addr (z # zs) = Inl (AssertionError, s)"
  by (cases z) simp

lemma write_loop_break:
  "addr < 2 ^ 15 \<Longrightarrow>
     write_loop s was_old start av addr ((None, old_byte) # zs)
       = Inr (s, was_old, start, Some addr)"
  by simp

lemma write_loop_same:
  "addr < 2 ^ 15 \<Longrightarrow>
     write_loop s was_old start av addr ((Some b, Some b) # zs)
       = write_loop
           (if \<not> was_old \<and> addr \<noteq> 0
            then print s (Wrote start (addr - 1) (addr - start)) else s)
           True (if was_old then start else addr) (Some addr) (addr + 1) zs"
  by simp

lemma write_loop_differ:
  "addr < 2 ^ 15 \<Longrightarrow> Some b \<noteq> old_byte \<Longrightarrow>
     write_loop s was_old start av addr ((Some b, old_byte) # zs)
       = and_then
           (write_byte
              (if was_old then print s (Skipped start (addr - 1) (addr - start)) else s)
              addr b)
           (\<lambda>s'. write_loop s' False (if was_old then addr else start) (Some addr)
                   (addr + 1) zs)"
  by simp

lemma write_loop_writes:
  assumes "valid_session s" "addr + int (length zs) \<le> 2 ^ 15"
  shows "\<exists>s' w st av. write_loop s was_old start av0 addr zs = Inr (s', w, st, av)
            \<and> valid_session s'
            \<and> byte_writes s' = byte_writes s @ expected_writes addr zs
            \<and> (zs = [] \<and> av = av0 \<or> (\<exists>a. av = Some a))"
  using assms
proof (induction zs arbitrary: s was_old start av0 addr)
  case Nil
  then show ?case by simp
next
  case (Cons z zs)
  obtain byte old_byte where z: "z = (byte, old_byte)"
    by (cases z)
  have lt: "addr < 2 ^ 15" and rest: "(addr + 1) + int (length zs) \<le> 2 ^ 15"
    using Cons.prems(2) by simp_all
  show ?case
  proof (cases byte)
    case None
    with Cons.prems(1) z show ?thesis
      by (simp only: write_loop_break [OF lt]) simp
  next
    case (Some b)
    show ?thesis
    proof (cases "Some b = old_byte")
      case True
      define s1 where "s1 = (if \<not> was_old \<and> addr \<noteq> 0
          then print s (Wrote start (addr - 1) (addr - start)) else s)"
      have s1: "valid_session s1" "byte_writes s1 = byte_writes s"
        using Cons.prems(1) by (simp_all add: s1_def print_keeps)
      have z': "z = (Some b, Some b)"
        using z Some True by simp
      have step: "write_loop s was_old start av0 addr (z # zs)
                  = write_loop s1 True (if was_old then start else addr) (Some addr) (addr + 1) zs"
        unfolding z' s1_def by (rule write_loop_same [OF lt])
      have "expected_writes addr (z # zs) = expected_writes (addr + 1) zs"
        by (simp add: z')
      then show ?thesis
        using Cons.IH [OF s1(1) rest, of True "if was_old then start else addr" "Some addr"]
          s1(2)
        unfolding step by auto
    next
      case False
      define s1 where "s1 = (if was_old
          then print s (Skipped start (addr - 1) (addr - start)) else s)"
      have s1: "valid_session s1" "byte_writes s1 = byte_writes s"
        using Cons.prems(1) by (simp_all add: s1_def print_keeps)
      obtain s2 where s2: "write_byte s1 addr b = Inr s2" "valid_session s2"
          "byte_writes s2 = byte_writes s1 @ [(addr, b)]"
        using write_byte_step [OF s1(1), of addr b] lt by auto
      have z': "z = (Some b, old_byte)"
        using z Some by simp
      have step: "write_loop s was_old start av0 addr (z # zs)
                  = write_loop s2 False (if was_old then addr else start) (Some addr) (addr + 1) zs"
        unfolding z' write_loop_differ [OF lt False] s1_def [symmetric]
        by (simp add: s2(1) and_then_def)
      have "expected_writes addr (z # zs) = (addr, b) # expected_writes (addr + 1) zs"
        using False by (simp add: z')
      then show ?thesis
        using Cons.IH [OF s2(2) rest, of False "if was_old then addr else start" "Some addr"]
          s1(2) s2(3)
        unfolding step by auto
    qed
  qed
qed


lemma write_loop_overflow:
  assumes "valid_session s" "addr \<le> 2 ^ 15" "2 ^ 15 < addr + int (length zs)"
    and "list_all (\<lambda>z. fst z \<noteq> None) (take (nat (2 ^ 15 - addr)) zs)"
  shows "\<exists>s'. write_loop s was_old start av0 addr zs = Inl (AssertionError, s')
            \<and> byte_writes s' = byte_writes s @ expected_writes addr (take (nat (2 ^ 15 - addr)) zs)"
  using assms
proof (induction zs arbitrary: s was_old start av0 addr)
  case Nil
  then show ?case by simp
next
  case (Cons z zs)
  show ?case
  proof (cases "addr < 2 ^ 15")
    case False
    then have "nat (2 ^ 15 - addr) = 0"
      by simp
    then show ?thesis
      by (simp only: write_loop_overflow_step [OF False]) simp
  next
    case lt: True
    define k where "k = nat (2 ^ 15 - (addr + 1))"
    have k: "nat (2 ^ 15 - addr) = Suc k"
      using lt by (simp add: k_def)
    have le: "addr + 1 \<le> 2 ^ 15" and rest: "2 ^ 15 < (addr + 1) + int (length zs)"
      using lt Cons.prems(3) by simp_all
    have some: "fst z \<noteq> None" and all: "list_all (\<lambda>z. fst z \<noteq> None) (take k zs)"
      using Cons.prems(4) unfolding k by simp_all
    obtain b old_byte where z: "z = (Some b, old_byte)"
      using some by (cases z) auto
    show ?thesis
    proof (cases "Some b = old_byte")
      case True
      define s1 where "s1 = (if \<not> was_old \<and> addr \<noteq> 0
          then print s (Wrote start (addr - 1) (addr - start)) else s)"
      have s1: "valid_session s1" "byte_writes s1 = byte_writes s"
        using Cons.prems(1) by (simp_all add: s1_def print_keeps)
      have z': "z = (Some b, Some b)"
        using z True by simp
      have step: "write_loop s was_old start av0 addr (z # zs)
                  = write_loop s1 True (if was_old then start else addr) (Some addr) (addr + 1) zs"
        unfolding z' s1_def by (rule write_loop_same [OF lt])
      have "expected_writes addr (take (Suc k) (z # zs)) = expected_writes (addr + 1) (take k zs)"
        by (simp add: z')
      then show ?thesis
        using Cons.IH [OF s1(1) le rest, of True "if was_old then start else addr" "Some addr"]
          all s1(2)
        unfolding step k k_def [symmetric] by auto
    next
      case False
      define s1 where "s1 = (if was_old
          then print s (Skipped start (addr - 1) (addr - start)) else s)"
      have s1: "valid_session s1" "byte_writes s1 = byte_writes s"
        using Cons.prems(1) by (simp_all add: s1_def print_keeps)
      obtain s2 where s2: "write_byte s1 addr b = Inr s2" "valid_session s2"
          "byte_writes s2 = byte_writes s1 @ [(addr, b)]"
        using write_byte_step [OF s1(1), of addr b] lt by auto
      have step: "write_loop s was_old start av0 addr (z # zs)
                  = write_loop s2 False (if was_old then addr else start) (Some addr) (addr + 1) zs"
        unfolding z write_loop_differ [OF lt False] s1_def [symmetric]
        by (simp add: s2(1) and_then_def)
      have "expected_writes addr (take (Suc k) (z # zs))
              = (addr, b) # expected_writes (addr + 1) (take k zs)"
        using False by (simp add: z)
      then show ?thesis
        using Cons.IH [OF s2(2) le rest, of False "if was_old then addr else start" "Some addr"]
          all s1(2) s2(3)
        unfolding step k k_def [symmetric] by auto
    qed
  qed
qed

lemma write_loop_no_baseline:
  assumes "valid_session s" "addr + int (length xs) \<le> 2 ^ 15"
  shows "\<exists>s'. write_loop s False start av0 addr (map (\<lambda>x. (Some x, None)) xs)
                 = Inr (s', False, start,
                        if xs = [] then av0 else Some (addr + int (length xs) - 1))
            \<and> stdout s' = stdout s"
  using assms
proof (induction xs arbitrary: s av0 addr)
  case Nil
  then show ?case by simp
next
  case (Cons x xs)
  have lt: "addr < 2 ^ 15" and rest: "(addr + 1) + int (length xs) \<le> 2 ^ 15"
    using Cons.prems(2) by simp_all
  obtain s2 where s2: "write_byte s addr x = Inr s2" "valid_session s2" "stdout s2 = stdout s"
    using write_byte_step [OF Cons.prems(1), of addr x] lt by auto
  have step: "write_loop s False start av0 addr (map (\<lambda>x. (Some x, None)) (x # xs))
              = write_loop s2 False start (Some addr) (addr + 1) (map (\<lambda>x. (Some x, None)) xs)"
    using write_loop_differ [OF lt, of x None s False start av0]
    by (simp add: s2(1) and_then_def del: write_loop.simps)
  show ?case
    using Cons.IH [OF s2(2) rest, of "Some addr"] s2(3)
    unfolding step by (auto simp del: write_loop.simps)
qed

lemma write_loop_unchanged:
  assumes "addr + int (length xs) < 2 ^ 15 \<or> (addr + int (length xs) \<le> 2 ^ 15 \<and> extra = [])"
  shows "\<exists>av. write_loop s True 0 av0 addr
                 (map (\<lambda>x. (Some x, Some x)) xs @ map (\<lambda>y. (None, Some y)) extra)
               = Inr (s, True, 0, av)"
  using assms
proof (induction xs arbitrary: av0 addr)
  case Nil
  then show ?case
    by (cases extra) auto
next
  case (Cons x xs)
  have lt: "addr < 2 ^ 15"
    and rest: "(addr + 1) + int (length xs) < 2 ^ 15
               \<or> ((addr + 1) + int (length xs) \<le> 2 ^ 15 \<and> extra = [])"
    using Cons.prems by auto
  have step: "write_loop s True 0 av0 addr
                (map (\<lambda>x. (Some x, Some x)) (x # xs) @ map (\<lambda>y. (None, Some y)) extra)
              = write_loop s True 0 (Some addr) (addr + 1)
                  (map (\<lambda>x. (Some x, Some x)) xs @ map (\<lambda>y. (None, Some y)) extra)"
    using write_loop_same [OF lt, of s True 0 av0 x]
    by (simp del: write_loop.simps)
  show ?case
    using Cons.IH [OF rest, of "Some addr"]
    unfolding step .
qed

lemma zip_longest_no_baseline:
  "zip_longest xs [] = map (\<lambda>x. (Some x, None)) xs"
  by (induction xs) simp_all

lemma zip_longest_no_primary:
  "zip_longest [] ys = map (\<lambda>y. (None, Some y)) ys"
  by (induction ys) simp_all

lemma zip_longest_prefix:
  "zip_longest xs (xs @ extra)
     = map (\<lambda>x. (Some x, Some x)) xs @ map (\<lambda>y. (None, Some y)) extra"
  by (induction xs) (simp_all add: zip_longest_no_primary)

lemma length_zip_longest:
  "length (zip_longest xs ys) = max (length xs) (length ys)"
  by (induction xs ys rule: zip_longest.induct) simp_all

lemma zip_longest_primary_bound:
  "n \<le> length xs \<Longrightarrow> list_all (\<lambda>z. fst z \<noteq> None) (take n (zip_longest xs ys))"
proof (induction xs ys arbitrary: n rule: zip_longest.induct)
  case (2 x xs)
  then show ?case by (cases n) simp_all
next
  case (4 x xs y ys)
  then show ?case by (cases n) simp_all
qed simp_all

lemma expected_writes_no_baseline:
  "expected_writes addr (map (\<lambda>x. (Some x, None)) xs)
     = map (\<lambda>i. (addr + int i, xs ! i)) [0..<length xs]"
proof (induction xs arbitrary: addr)
  case Nil
  show ?case by simp
next
  case (Cons x xs)
  have "map (\<lambda>i. (addr + int i, (x # xs) ! i)) [0..<length (x # xs)]
          = (addr, x) # map (\<lambda>i. (addr + 1 + int i, xs ! i)) [0..<length xs]"
    by (simp add: upt_conv_Cons map_Suc_upt [symmetric] del: upt_Suc)
  then show ?case
    using Cons.IH [of "addr + 1"] by simp
qed

lemma expected_writes_tail:
  assumes "length ys \<le> length xs"
  shows "\<exists>ws. expected_writes addr (zip_longest xs ys)
                 = ws @ map (\<lambda>i. (addr + int i, xs ! i)) [length ys..<length xs]
              \<and> list_all (\<lambda>w. fst w < addr + int (length ys)) ws"
  using assms
proof (induction ys arbitrary: xs addr)
  case Nil
  show ?case
    by (simp add: zip_longest_no_baseline expected_writes_no_baseline)
next
  case (Cons y ys)
  then obtain x xs' where xs: "xs = x # xs'" and len: "length ys \<le> length xs'"
    by (cases xs) auto
  obtain ws where ws:
      "expected_writes (addr + 1) (zip_longest xs' ys)
         = ws @ map (\<lambda>i. (addr + 1 + int i, xs' ! i)) [length ys..<length xs']"
      "list_all (\<lambda>w. fst w < addr + 1 + int (length ys)) ws"
    using Cons.IH [OF len, of "addr + 1"] by auto
  have shift: "map (\<lambda>i. (addr + int i, (x # xs') ! i)) [Suc (length ys)..<Suc (length xs')]
                 = map (\<lambda>i. (addr + 1 + int i, xs' ! i)) [length ys..<length xs']"
    by (simp add: map_Suc_upt [symmetric] del: upt_Suc)
  have "expected_writes addr (zip_longest xs (y # ys))
          = ((if x = y then [] else [(addr, x)]) @ ws)
            @ map (\<lambda>i. (addr + int i, xs ! i)) [length (y # ys)..<length xs]"
    using ws(1) shift by (simp add: xs)
  moreover have "list_all (\<lambda>w. fst w < addr + int (length (y # ys)))
                   ((if x = y then [] else [(addr, x)]) @ ws)"
    using ws(2) by (simp add: add.assoc)
  ultimately show ?case
    by blast
qed

lemma expected_writes_range:
  "(a, b) \<in> set (expected_writes addr zs) \<Longrightarrow> addr \<le> a \<and> a < addr + int (length zs)"
proof (induction addr zs rule: expected_writes.induct)
  case (3 addr b' old_byte rest)
  then show ?case
    by (fastforce split: if_splits)
qed simp_all

lemma BbEeProg_write_returns:
  assumes "valid_session s" "int (length new_data) \<le> 2 ^ 15" "int (length old_data) \<le> 2 ^ 15"
    and "new_data \<noteq> [] \<or> old_data \<noteq> []"
  shows "\<exists>s'. BbEeProg_write s new_data old_data = Inr s'
            \<and> byte_writes s' = byte_writes s @ expected_writes 0 (zip_longest new_data old_data)"
proof -
  define zs where "zs = zip_longest new_data old_data"
  have len: "0 + int (length zs) \<le> 2 ^ 15"
    using assms(2,3) by (simp add: zs_def length_zip_longest)
  have ne: "zs \<noteq> []"
    using assms(4) length_zip_longest [of new_data old_data] by (auto simp add: zs_def)
  obtain s' w st a where loop: "write_loop s False 0 None 0 zs = Inr (s', w, st, Some a)"
      and s': "byte_writes s' = byte_writes s @ expected_writes 0 zs"
    using write_loop_writes [OF assms(1) len, of False 0 None] ne by auto
  show ?thesis
    unfolding BbEeProg_write_def zs_def [symmetric] loop
    using s' by (simp add: and_then_def print_keeps)
qed

lemma BbEeProg_write_overflow:
  assumes "valid_session s" "2 ^ 15 < int (length new_data)"
  shows "\<exists>s'. BbEeProg_write s new_data old_data = Inl (AssertionError, s')
            \<and> byte_writes s' = byte_writes s
                 @ expected_writes 0 (take (2 ^ 15) (zip_longest new_data old_data))"
proof -
  define zs where "zs = zip_longest new_data old_data"
  have k: "nat (2 ^ 15 - 0) = 2 ^ 15"
    by simp
  have len: "2 ^ 15 < 0 + int (length zs)"
    using assms(2) by (simp add: zs_def length_zip_longest)
  have "(2::nat) ^ 15 \<le> length new_data"
    using assms(2) by simp
  then have all: "list_all (\<lambda>z. fst z \<noteq> None) (take (nat (2 ^ 15 - 0)) zs)"
    unfolding k zs_def by (rule zip_longest_primary_bound)
  obtain s' where loop: "write_loop s False 0 None 0 zs = Inl (AssertionError, s')"
      and s': "byte_writes s' = byte_writes s @ expected_writes 0 (take (2 ^ 15) zs)"
    using write_loop_overflow [OF assms(1) _ len all, of False 0 None] unfolding k by auto
  show ?thesis
    unfolding BbEeProg_write_def zs_def [symmetric] loop
    using s' by (simp add: and_then_def)
qed

lemma expected_writes_below:
  "list_all (\<lambda>w. 0 \<le> fst w \<and> fst w < 2 ^ 15) (expected_writes 0 (take (2 ^ 15) zs))"
proof -
  have "0 \<le> a \<and> a < 2 ^ 15" if "(a, b) \<in> set (expected_writes 0 (take (2 ^ 15) zs))" for a b
  proof -
    have "0 \<le> a" "a < 0 + int (length (take (2 ^ 15) zs))"
      using expected_writes_range [OF that] by simp_all
    moreover have "int (length (take (2 ^ 15) zs)) \<le> 2 ^ 15"
      by simp
    ultimately show ?thesis
      by linarith
  qed
  then show ?thesis
    by (auto simp add: list_all_iff)
qed

text \<open>The definitions that running the programmer on a concrete input unfolds.\<close>

lemmas run_defs =
  enter_def and_then_def SN74LV8153_init_def MIN_BAUD_RATE_def MAX_BAUD_RATE_def
  chip_write_def SN74LV8153_write_def protocol_def bytes_def now_def sleep_def print_def
  ADDR_HI_WRITE_DISABLE_BIT_def WRITE_CYCLE_MS_def timedelta_ms_def write_byte_def
  BbEeProg_write_def

section \<open>The claims\<close>

text \<open>
  C1. For every channel in [0,8) and every value in [0,256) the encoder returns exactly
  the two bytes \<open>((value & 0x0F) << 4) | (channel << 1) | 1\<close> and
  \<open>((value >> 4) << 4) | (channel << 1) | 1\<close>, the low-nibble telegram first; and
  \<open>encode(5, 0xAB) = (0xBB, 0xAB)\<close>.
\<close>

theorem C1_protocol_encoding:
  "(0 \<le> channel \<and> channel < 8 \<and> 0 \<le> v \<and> v < 256 \<longrightarrow>
      protocol channel v =
        Inr [(push_bit 4 (v AND 0x0F) OR push_bit 1 channel) OR 1,
             (push_bit 4 (drop_bit 4 v) OR push_bit 1 channel) OR 1])
   \<and> protocol 5 0xAB = Inr [0xBB, 0xAB]"
proof
  show "0 \<le> channel \<and> channel < 8 \<and> 0 \<le> v \<and> v < 256 \<longrightarrow>
      protocol channel v =
        Inr [(push_bit 4 (v AND 0x0F) OR push_bit 1 channel) OR 1,
             (push_bit 4 (drop_bit 4 v) OR push_bit 1 channel) OR 1]"
    by (simp add: protocol_valid)
  show "protocol 5 0xAB = Inr [0xBB, 0xAB]"
    by (simp add: protocol_def bytes_def)
qed

theorem C1_protocol_encoding_witness:
  "(0::int) \<le> 2 \<and> (2::int) < 8 \<and> (0::int) \<le> 0x3C \<and> (0x3C::int) < 256
   \<and> protocol 2 0x3C = Inr [0xC5, 0x35]"
  using C1_protocol_encoding [of 2 "0x3C"] by simp

text \<open>
  C2, as the code has it. When the baseline is strictly shorter than a primary sequence
  of at most \<open>2^15\<close> bytes, the driver returns, and every address from the baseline's
  length up to \<open>len(primary) - 1\<close> is visited and written: after the calls of
  \<open>write_byte\<close> at addresses below the baseline's length (\<open>ws\<close>), it is called for
  each of those addresses, in order, with the primary byte there.
\<close>

theorem C2_short_baseline:
  assumes "valid_session s" "length old_data < length new_data"
    and "int (length new_data) \<le> 2 ^ 15"
  shows "\<exists>s' ws. BbEeProg_write s new_data old_data = Inr s'
            \<and> byte_writes s' = byte_writes s @ ws
                 @ map (\<lambda>i. (int i, new_data ! i)) [length old_data..<length new_data]
            \<and> list_all (\<lambda>w. fst w < int (length old_data)) ws"
proof -
  have old: "int (length old_data) \<le> 2 ^ 15" and ne: "new_data \<noteq> [] \<or> old_data \<noteq> []"
    using assms(2,3) by auto
  obtain s' where s': "BbEeProg_write s new_data old_data = Inr s'"
      "byte_writes s' = byte_writes s @ expected_writes 0 (zip_longest new_data old_data)"
    using BbEeProg_write_returns [OF assms(1,3) old ne] by blast
  obtain ws where ws: "expected_writes 0 (zip_longest new_data old_data)
        = ws @ map (\<lambda>i. (0 + int i, new_data ! i)) [length old_data..<length new_data]"
      "list_all (\<lambda>w. fst w < 0 + int (length old_data)) ws"
    using expected_writes_tail [of old_data new_data 0] assms(2) by auto
  show ?thesis
    using s' ws by simp
qed

theorem C2_short_baseline_witness:
  "let s0 = projr (enter ''/dev/ttyUSB0'' 0) in
     valid_session s0 \<and> length [1 :: int] < length [1, 2, 3 :: int]
     \<and> int (length [1, 2, 3 :: int]) \<le> 2 ^ 15
     \<and> raised (BbEeProg_write s0 [1, 2, 3] [1]) = None
     \<and> filter (\<lambda>w. 1 \<le> fst w) (byte_writes (state_after (BbEeProg_write s0 [1, 2, 3] [1])))
         = [(1, 2), (2, 3)]"
proof -
  define s0 where "s0 = projr (enter ''/dev/ttyUSB0'' 0)"
  have v: "valid_session s0"
    unfolding s0_def by (rule enter_valid)
  have e: "byte_writes s0 = []"
    by (simp add: s0_def enter_returns)
  have l1: "length [1 :: int] < length [1, 2, 3 :: int]"
    and l2: "int (length [1, 2, 3 :: int]) \<le> 2 ^ 15"
    by simp_all
  have up: "[1..<3] = [1, 2]"
    by (simp add: upt_conv_Cons)
  obtain s' ws where s': "BbEeProg_write s0 [1, 2, 3] [1] = Inr s'"
      "byte_writes s' = ws @ [(1, 2), (2, 3)]" "list_all (\<lambda>w. fst w < 1) ws"
    using C2_short_baseline [OF v l1 l2] e by (auto simp add: up)
  have "filter (\<lambda>w. 1 \<le> fst w) ws = []"
    using s'(3) by (auto simp add: filter_empty_conv list_all_iff)
  then have "filter (\<lambda>w. 1 \<le> fst w) (byte_writes s') = [(1, 2), (2, 3)]"
    by (simp add: s'(2))
  with v l1 l2 s'(1) show ?thesis
    by (simp add: s0_def)
qed

text \<open>
  The claim as stated, that the tail is never written, fails: with the primary \<open>[1, 2]\<close>
  and the baseline \<open>[1]\<close>, the byte 2 is written at address 1, past the baseline's end.
\<close>

theorem C2_short_baseline_counterexample:
  "byte_writes (state_after (BbEeProg_write (projr (enter ''/dev/ttyUSB0'' 0)) [1, 2] [1]))
     = [(1, 2)]"
  by (simp add: enter_returns run_defs)

text \<open>
  C3, as the code has it. For every chip and every 8-bit value \<open>v\<close>, the second of two
  consecutive calls \<open>write(v)\<close> appends no bytes and the chip's last value is \<open>v\<close>
  after both calls. Together the two calls append exactly one pair of telegrams when the
  chip's last value before the first call differs from \<open>v\<close> (as it does for a chip
  that was just constructed), and no bytes when it is \<open>v\<close> already.
\<close>

theorem C3_repeated_write:
  assumes "valid_chip c" "0 \<le> v" "v < 256"
  shows "\<exists>ser1 c1.
           SN74LV8153_write ser c v = Inr (ser1, c1)
           \<and> SN74LV8153_write ser1 c1 v = Inr (ser1, c1)
           \<and> last_value c1 = v
           \<and> ser1 = ser @ (if last_value c = v then []
                            else [(push_bit 4 (v AND 0x0F) OR push_bit 1 (chip_addr c)) OR 1,
                                  (push_bit 4 (drop_bit 4 v) OR push_bit 1 (chip_addr c)) OR 1])"
proof -
  have mask: "v AND 0xFF = v"
    using assms(2,3) by (rule byte_mask_id)
  define c1 where "c1 = c\<lparr>last_value := v\<rparr>"
  have c1: "valid_chip c1" "last_value c1 = v"
    using assms(1) by (simp_all add: c1_def valid_chip_def)
  have first: "SN74LV8153_write ser c v = Inr (ser @ telegrams_sent c v, c1)"
    using SN74LV8153_write_valid [OF assms(1), of ser v] by (simp add: mask c1_def)
  have "telegrams_sent c1 v = []"
    by (simp add: telegrams_sent_def mask c1)
  moreover have "c1\<lparr>last_value := v\<rparr> = c1"
    by (simp add: c1_def)
  ultimately have second:
    "SN74LV8153_write (ser @ telegrams_sent c v) c1 v = Inr (ser @ telegrams_sent c v, c1)"
    using SN74LV8153_write_valid [OF c1(1), of "ser @ telegrams_sent c v" v] by (simp add: mask)
  have "telegrams_sent c v =
          (if last_value c = v then []
           else [(push_bit 4 (v AND 0x0F) OR push_bit 1 (chip_addr c)) OR 1,
                 (push_bit 4 (drop_bit 4 v) OR push_bit 1 (chip_addr c)) OR 1])"
    by (auto simp add: telegrams_sent_def mask)
  with first second c1(2) show ?thesis
    by simp
qed

theorem C3_repeated_write_witness:
  "valid_chip \<lparr>chip_addr = 2, last_value = - 1\<rparr> \<and> (0::int) \<le> 0xAB \<and> (0xAB::int) < 256
   \<and> SN74LV8153_write [] \<lparr>chip_addr = 2, last_value = - 1\<rparr> 0xAB
        = Inr ([0xB5, 0xA5], \<lparr>chip_addr = 2, last_value = 0xAB\<rparr>)
   \<and> SN74LV8153_write [0xB5, 0xA5] \<lparr>chip_addr = 2, last_value = 0xAB\<rparr> 0xAB
        = Inr ([0xB5, 0xA5], \<lparr>chip_addr = 2, last_value = 0xAB\<rparr>)"
proof -
  have v: "valid_chip \<lparr>chip_addr = 2, last_value = - 1\<rparr>"
    by (simp add: valid_chip_def)
  obtain ser1 c1 where
    "SN74LV8153_write [] \<lparr>chip_addr = 2, last_value = - 1\<rparr> 0xAB = Inr (ser1, c1)"
    "SN74LV8153_write ser1 c1 0xAB = Inr (ser1, c1)"
    "ser1 = [0xB5, 0xA5]"
    using C3_repeated_write [OF v, of "0xAB" "[]"] by auto
  moreover have "SN74LV8153_write [] \<lparr>chip_addr = 2, last_value = - 1\<rparr> 0xAB
        = Inr ([0xB5, 0xA5], \<lparr>chip_addr = 2, last_value = 0xAB\<rparr>)"
    by (simp add: SN74LV8153_write_def protocol_def bytes_def)
  ultimately show ?thesis
    using v by simp
qed

text \<open>
  The claim as stated, with exactly one pair for every chip, fails for a chip that holds
  \<open>v\<close> already: after one \<open>write(5)\<close> on a new chip, two further consecutive calls
  \<open>write(5)\<close> leave the port as it was (\<open>ser3 = ser1\<close>).
\<close>

theorem C3_repeated_write_counterexample:
  "and_then (SN74LV8153_init 24000 0) (\<lambda>c0.
   and_then (SN74LV8153_write [] c0 5) (\<lambda>(ser1, c1).
   and_then (SN74LV8153_write ser1 c1 5) (\<lambda>(ser2, c2).
   and_then (SN74LV8153_write ser2 c2 5) (\<lambda>(ser3, c3). Inr (ser1, ser3)))))
   = Inr ([0x51, 0x01], [0x51, 0x01])"
  by (simp add: and_then_def SN74LV8153_init_def MIN_BAUD_RATE_def MAX_BAUD_RATE_def
      SN74LV8153_write_def protocol_def bytes_def)

text \<open>
  C4. For every address \<open>\<le> 0x7FFF\<close> and every byte, \<open>write_byte\<close> returns, and the
  chip writes it makes are exactly these, in this order: the value to the data chip,
  \<open>address & 0xFF\<close> to the low-address chip, \<open>(address >> 8) | WRITE_DISABLE_BIT\<close> to the
  high-address chip, then (after the delay, at the clock value that the call ends with)
  \<open>address >> 8\<close> to the high-address chip and \<open>(address >> 8) | WRITE_DISABLE_BIT\<close>
  again. The trace of chip writes grows by these five calls and no other.
\<close>

theorem C4_write_byte_order:
  assumes "valid_session s" "addr \<le> 0x7FFF"
  shows "\<exists>s'. write_byte s addr byte = Inr s'
           \<and> chip_writes s' = chip_writes s @
                [(clock s, Data, byte),
                 (clock s, AddrLo, addr AND 0xFF),
                 (clock s, AddrHi, drop_bit 8 addr OR ADDR_HI_WRITE_DISABLE_BIT),
                 (clock s', AddrHi, drop_bit 8 addr),
                 (clock s', AddrHi, drop_bit 8 addr OR ADDR_HI_WRITE_DISABLE_BIT)]"
  using write_byte_effect [OF assms, of byte] by auto

theorem C4_write_byte_order_witness:
  "valid_session (projr (enter ''/dev/ttyUSB0'' 0)) \<and> (0x1234::int) \<le> 0x7FFF
   \<and> map snd (chip_writes (state_after (write_byte (projr (enter ''/dev/ttyUSB0'' 0)) 0x1234 0x56)))
     = [(AddrHi, 0x80), (Data, 0x56), (AddrLo, 0x34), (AddrHi, 0x92), (AddrHi, 0x12), (AddrHi, 0x92)]"
proof -
  have v: "valid_session (projr (enter ''/dev/ttyUSB0'' 0))"
    by (rule enter_valid)
  have "chip_writes (projr (enter ''/dev/ttyUSB0'' 0)) = [(0, AddrHi, 0x80)]"
    by (simp add: enter_returns)
  then show ?thesis
    using v C4_write_byte_order [OF v, of "0x1234" "0x56"]
    by (auto simp add: ADDR_HI_WRITE_DISABLE_BIT_def)
qed

text \<open>
  C5. An address \<open>\<ge> 2^15\<close> is fatal. \<open>write_byte\<close> at such an address raises an
  assertion failure with nothing sent to the port and no chip written. When the primary
  sequence is longer than \<open>2^15\<close> bytes, the driver raises an assertion failure: the
  calls of \<open>write_byte\<close> it has made by then are those for the first \<open>2^15\<close> pairs, all
  at addresses below \<open>2^15\<close>, and the operation ends there.
\<close>

theorem C5_address_overflow:
  "(0x8000 \<le> addr \<longrightarrow>
      (\<exists>s'. write_byte s addr byte = Inl (AssertionError, s')
            \<and> serial s' = serial s \<and> chip_writes s' = chip_writes s))
   \<and> (valid_session s \<and> 2 ^ 15 < int (length new_data) \<longrightarrow>
      (\<exists>s' ws. BbEeProg_write s new_data old_data = Inl (AssertionError, s')
            \<and> byte_writes s' = byte_writes s @ ws
            \<and> ws = expected_writes 0 (take (2 ^ 15) (zip_longest new_data old_data))
            \<and> list_all (\<lambda>w. 0 \<le> fst w \<and> fst w < 2 ^ 15) ws))"
proof (intro conjI impI)
  assume "0x8000 \<le> addr"
  then show "\<exists>s'. write_byte s addr byte = Inl (AssertionError, s')
            \<and> serial s' = serial s \<and> chip_writes s' = chip_writes s"
    by (simp add: write_byte_def)
next
  assume "valid_session s \<and> 2 ^ 15 < int (length new_data)"
  then show "\<exists>s' ws. BbEeProg_write s new_data old_data = Inl (AssertionError, s')
            \<and> byte_writes s' = byte_writes s @ ws
            \<and> ws = expected_writes 0 (take (2 ^ 15) (zip_longest new_data old_data))
            \<and> list_all (\<lambda>w. 0 \<le> fst w \<and> fst w < 2 ^ 15) ws"
    using BbEeProg_write_overflow [of s new_data old_data] expected_writes_below
    by auto
qed

theorem C5_address_overflow_witness:
  "let s0 = projr (enter ''/dev/ttyUSB0'' 0) in
     (0x8000::int) \<le> 0x8000
     \<and> raised (write_byte s0 0x8000 0xFF) = Some AssertionError
     \<and> serial (state_after (write_byte s0 0x8000 0xFF)) = serial s0
     \<and> valid_session s0 \<and> (2::int) ^ 15 < int (length (replicate 32769 (0xFF::int)))
     \<and> raised (BbEeProg_write s0 (replicate 32769 0xFF) []) = Some AssertionError
     \<and> list_all (\<lambda>w. fst w < 2 ^ 15)
          (byte_writes (state_after (BbEeProg_write s0 (replicate 32769 0xFF) [])))"
proof -
  define s0 where "s0 = projr (enter ''/dev/ttyUSB0'' 0)"
  define xs :: "int list" where "xs = replicate 32769 0xFF"
  have v: "valid_session s0"
    unfolding s0_def by (rule enter_valid)
  have e: "byte_writes s0 = []"
    by (simp add: s0_def enter_returns)
  have len: "(2::int) ^ 15 < int (length xs)"
    by (simp add: xs_def)
  have "raised (write_byte s0 0x8000 0xFF) = Some AssertionError
        \<and> serial (state_after (write_byte s0 0x8000 0xFF)) = serial s0
        \<and> raised (BbEeProg_write s0 xs []) = Some AssertionError
        \<and> list_all (\<lambda>w. fst w < 2 ^ 15) (byte_writes (state_after (BbEeProg_write s0 xs [])))"
    using C5_address_overflow [of "0x8000" s0 "0xFF" xs "[]"] v len e
    by (auto simp add: list_all_iff)
  with v len show ?thesis
    by (simp add: s0_def xs_def)
qed

text \<open>
  C6, as the code has it. When the driver is run with no baseline on a primary sequence
  of at most \<open>2^15\<close> bytes, \<open>write_byte\<close> is called for every address from 0 to
  \<open>len(primary) - 1\<close>, in order, with the byte at that address, and no skipped run is
  reported: the only line printed is the final written run over the whole range. (For the
  empty sequence nothing is written or printed and the call ends in
  \<open>UnboundLocalError\<close>.)
\<close>

theorem C6_no_baseline:
  assumes "valid_session s" "int (length new_data) \<le> 2 ^ 15"
  shows "\<exists>s'. BbEeProg_write s new_data []
                 = (if new_data = [] then Inl (UnboundLocalError, s') else Inr s')
            \<and> byte_writes s'
                 = byte_writes s @ map (\<lambda>i. (int i, new_data ! i)) [0..<length new_data]
            \<and> stdout s'
                 = stdout s @ (if new_data = [] then []
                               else [Wrote 0 (int (length new_data) - 1) (int (length new_data))])"
proof -
  define zs where "zs = map (\<lambda>x. (Some x, None :: int option)) new_data"
  have len: "0 + int (length new_data) \<le> 2 ^ 15" "0 + int (length zs) \<le> 2 ^ 15"
    using assms(2) by (simp_all add: zs_def)
  obtain s' where loop: "write_loop s False 0 None 0 zs
        = Inr (s', False, 0, if new_data = [] then None else Some (0 + int (length new_data) - 1))"
      and out: "stdout s' = stdout s"
    using write_loop_no_baseline [OF assms(1) len(1), of 0 None] unfolding zs_def by blast
  have "byte_writes s' = byte_writes s @ expected_writes 0 zs"
    using write_loop_writes [OF assms(1) len(2), of False 0 None] loop by auto
  then have w: "byte_writes s'
      = byte_writes s @ map (\<lambda>i. (int i, new_data ! i)) [0..<length new_data]"
    by (simp add: zs_def expected_writes_no_baseline)
  show ?thesis
    unfolding BbEeProg_write_def zip_longest_no_baseline zs_def [symmetric] loop
    using w out by (simp add: and_then_def print_keeps)
qed

theorem C6_no_baseline_witness:
  "let s0 = projr (enter ''/dev/ttyUSB0'' 0) in
     valid_session s0 \<and> int (length [7, 8, 9 :: int]) \<le> 2 ^ 15
     \<and> raised (BbEeProg_write s0 [7, 8, 9] []) = None
     \<and> byte_writes (state_after (BbEeProg_write s0 [7, 8, 9] [])) = [(0, 7), (1, 8), (2, 9)]
     \<and> stdout (state_after (BbEeProg_write s0 [7, 8, 9] [])) = [Wrote 0 2 3]"
proof -
  define s0 where "s0 = projr (enter ''/dev/ttyUSB0'' 0)"
  have v: "valid_session s0"
    unfolding s0_def by (rule enter_valid)
  have e: "byte_writes s0 = []" "stdout s0 = []"
    by (simp_all add: s0_def enter_returns)
  have len: "int (length [7, 8, 9 :: int]) \<le> 2 ^ 15"
    by simp
  have up: "[0..<3] = [0, 1, 2]"
    by (simp add: upt_conv_Cons)
  have "raised (BbEeProg_write s0 [7, 8, 9] []) = None
     \<and> byte_writes (state_after (BbEeProg_write s0 [7, 8, 9] [])) = [(0, 7), (1, 8), (2, 9)]
     \<and> stdout (state_after (BbEeProg_write s0 [7, 8, 9] [])) = [Wrote 0 2 3]"
    using C6_no_baseline [OF v len] e by (auto simp add: up)
  with v len show ?thesis
    by (simp add: s0_def)
qed

text \<open>
  Without the bound the claim fails: of 32769 primary bytes the last one, at address
  \<open>2^15\<close>, is never written.
\<close>

theorem C6_no_baseline_counterexample:
  "(32768, 7) \<notin> set (byte_writes (state_after
      (BbEeProg_write (projr (enter ''/dev/ttyUSB0'' 0)) (replicate 32769 7) [])))"
proof -
  define s0 where "s0 = projr (enter ''/dev/ttyUSB0'' 0)"
  define xs :: "int list" where "xs = replicate 32769 7"
  have v: "valid_session s0"
    unfolding s0_def by (rule enter_valid)
  have e: "byte_writes s0 = []"
    by (simp add: s0_def enter_returns)
  have len: "(2::int) ^ 15 < int (length xs)"
    by (simp add: xs_def)
  obtain s' where s': "BbEeProg_write s0 xs [] = Inl (AssertionError, s')"
      "byte_writes s' = expected_writes 0 (take (2 ^ 15) (zip_longest xs []))"
    using BbEeProg_write_overflow [OF v len, of "[]"] e by auto
  have "list_all (\<lambda>w. fst w < 2 ^ 15) (byte_writes s')"
    using expected_writes_below [of "zip_longest xs []"] s'(2) by (simp add: list_all_iff)
  then have "(32768, 7) \<notin> set (byte_writes s')"
    by (auto simp add: list_all_iff)
  then show ?thesis
    by (simp add: s'(1) s0_def [symmetric] xs_def [symmetric])
qed

text \<open>
  C7. Under the mocked clock, take two consecutive calls of \<open>write_byte\<close> on a clock
  that never runs backwards: the timestamp \<open>dt_last_write\<close> is not ahead of the clock
  when the first call starts, and the second call starts when the clock reads \<open>c\<close>, no
  earlier than the first call ended. The first call ends with \<open>dt_last_write\<close> set to
  the clock at its completion. The fourth chip write of the second call, which asserts the
  strobe, is made at \<open>max c (dt_last_write + write cycle)\<close>: the call has slept for
  \<open>(dt_last_write + write cycle) - now()\<close> when that is positive, so the strobe is
  asserted no earlier than one write cycle after the first call completed. Neither call
  sleeps for more than one write cycle.
\<close>

theorem C7_write_cycle_delay:
  assumes "valid_session s"
    and "dt_last_write s \<le> clock s"
    and "write_byte s addr1 byte1 = Inr s1"
    and "clock s1 \<le> c"
    and "write_byte (s1\<lparr>clock := c\<rparr>) addr2 byte2 = Inr s2"
  shows "dt_last_write s1 = clock s1
         \<and> clock s \<le> clock s1 \<and> clock s1 - clock s \<le> timedelta_ms WRITE_CYCLE_MS
         \<and> (\<exists>t. chip_writes s2 ! (length (chip_writes s1) + 3) = (t, AddrHi, drop_bit 8 addr2)
                \<and> t = max c (dt_last_write s1 + timedelta_ms WRITE_CYCLE_MS)
                \<and> dt_last_write s1 + timedelta_ms WRITE_CYCLE_MS \<le> t
                \<and> c \<le> t \<and> t - c \<le> timedelta_ms WRITE_CYCLE_MS)"
proof -
  have r1: "addr1 \<le> 0x7FFF" and r2: "addr2 \<le> 0x7FFF"
    using assms(3,5) by (auto dest: write_byte_returns)
  have s1: "valid_session s1" "dt_last_write s1 = clock s1"
      "clock s1 = max (clock s) (dt_last_write s + timedelta_ms WRITE_CYCLE_MS)"
    using write_byte_effect [OF assms(1) r1, of byte1] assms(3) by auto
  have first: "clock s \<le> clock s1" "clock s1 - clock s \<le> timedelta_ms WRITE_CYCLE_MS"
    using s1(3) assms(2) by (simp_all add: timedelta_ms_def WRITE_CYCLE_MS_def)
  have v: "valid_session (s1\<lparr>clock := c\<rparr>)"
    using s1(1) by (simp add: valid_session_def)
  define t where "t = max c (dt_last_write s1 + timedelta_ms WRITE_CYCLE_MS)"
  have "chip_writes s2 = chip_writes s1 @
          [(c, Data, byte2),
           (c, AddrLo, addr2 AND 0xFF),
           (c, AddrHi, drop_bit 8 addr2 OR ADDR_HI_WRITE_DISABLE_BIT),
           (t, AddrHi, drop_bit 8 addr2),
           (t, AddrHi, drop_bit 8 addr2 OR ADDR_HI_WRITE_DISABLE_BIT)]"
    using write_byte_effect [OF v r2, of byte2] assms(5) by (auto simp add: t_def)
  then have ev: "chip_writes s2 ! (length (chip_writes s1) + 3) = (t, AddrHi, drop_bit 8 addr2)"
    by (simp add: nth_append)
  have "dt_last_write s1 + timedelta_ms WRITE_CYCLE_MS \<le> t" "c \<le> t"
      "t - c \<le> timedelta_ms WRITE_CYCLE_MS"
    using s1(2) assms(4) by (simp_all add: t_def timedelta_ms_def WRITE_CYCLE_MS_def)
  with ev s1(2) first show ?thesis
    by (simp add: t_def)
qed

theorem C7_write_cycle_delay_witness:
  "let s0 = projr (enter ''/dev/ttyUSB0'' 0);
       s1 = projr (write_byte s0 0 1);
       s2 = projr (write_byte (s1\<lparr>clock := 20000\<rparr>) 1 2)
   in valid_session s0
      \<and> dt_last_write s0 \<le> clock s0
      \<and> write_byte s0 0 1 = Inr s1
      \<and> clock s1 \<le> 20000
      \<and> write_byte (s1\<lparr>clock := 20000\<rparr>) 1 2 = Inr s2
      \<and> dt_last_write s1 = 15000
      \<and> chip_writes s2 ! (length (chip_writes s1) + 3) = (30000, AddrHi, 0)"
proof -
  define s0 where "s0 = projr (enter ''/dev/ttyUSB0'' 0)"
  define s1 where "s1 = projr (write_byte s0 0 1)"
  define s2 where "s2 = projr (write_byte (s1\<lparr>clock := 20000\<rparr>) 1 2)"
  have v: "valid_session s0"
    unfolding s0_def by (rule enter_valid)
  have m0: "dt_last_write s0 \<le> clock s0"
    by (simp add: s0_def enter_returns)
  have h1: "write_byte s0 0 1 = Inr s1"
    unfolding s1_def s0_def by (simp add: run_defs)
  have d1: "dt_last_write s1 = 15000" and m1: "clock s1 \<le> 20000"
    unfolding s1_def s0_def by (simp_all add: run_defs)
  have h2: "write_byte (s1\<lparr>clock := 20000\<rparr>) 1 2 = Inr s2"
    unfolding s2_def s1_def s0_def by (simp add: run_defs)
  have "chip_writes s2 ! (length (chip_writes s1) + 3) = (30000, AddrHi, 0)"
    using C7_write_cycle_delay [OF v m0 h1 m1 h2] d1
    by (auto simp add: WRITE_CYCLE_MS_def timedelta_ms_def)
  with v m0 h1 m1 h2 d1 show ?thesis
    by (simp add: s0_def s1_def s2_def)
qed

text \<open>
  C8, as the code has it. When a baseline is supplied, the primary sequence is not empty,
  every byte of it equals the baseline's byte at the same address, and the primary
  sequence is shorter than \<open>2^15\<close> bytes, or exactly \<open>2^15\<close> bytes long with a baseline
  of the same length, the driver returns with the state it started in but for one more
  line printed, \<open>Nothing to do\<close>: no byte is written, and no written or skipped run is
  reported.
\<close>

theorem C8_nothing_to_do:
  assumes "new_data \<noteq> []"
    and "int (length new_data) < 2 ^ 15 \<or> (int (length new_data) = 2 ^ 15 \<and> extra = [])"
  shows "BbEeProg_write s new_data (new_data @ extra) = Inr (s\<lparr>stdout := stdout s @ [NothingToDo]\<rparr>)"
proof -
  obtain x xs where xs: "new_data = x # xs"
    using assms(1) by (cases new_data) auto
  have len: "1 + int (length xs) < 2 ^ 15 \<or> (1 + int (length xs) \<le> 2 ^ 15 \<and> extra = [])"
    using assms(2) by (auto simp add: xs)
  obtain av where rest: "write_loop s True 0 (Some 0) 1
        (map (\<lambda>x. (Some x, Some x)) xs @ map (\<lambda>y. (None, Some y)) extra) = Inr (s, True, 0, av)"
    using write_loop_unchanged [OF len, of s "Some 0"] by blast
  have "write_loop s False 0 None 0 (zip_longest new_data (new_data @ extra))
          = Inr (s, True, 0, av)"
    unfolding zip_longest_prefix xs
    using write_loop_same [of 0 s False 0 None x] rest
    by (simp del: write_loop.simps)
  then show ?thesis
    by (simp add: BbEeProg_write_def and_then_def print_def)
qed

theorem C8_nothing_to_do_witness:
  "[1 :: int] \<noteq> [] \<and> int (length [1 :: int]) < 2 ^ 15
   \<and> BbEeProg_write (projr (enter ''/dev/ttyUSB0'' 0)) [1] ([1] @ replicate 40000 7)
       = Inr \<lparr>serial_port = ''/dev/ttyUSB0'', serial = [3, 131],
              addr_lo = \<lparr>chip_addr = 0, last_value = - 1\<rparr>,
              addr_hi = \<lparr>chip_addr = 1, last_value = 128\<rparr>,
              data = \<lparr>chip_addr = 2, last_value = - 1\<rparr>,
              dt_last_write = 0, clock = 0, stdout = [NothingToDo],
              chip_writes = [(0, AddrHi, 128)], byte_writes = []\<rparr>"
proof -
  have ne: "[1 :: int] \<noteq> []" and len: "int (length [1 :: int]) < 2 ^ 15"
    by simp_all
  have "BbEeProg_write (projr (enter ''/dev/ttyUSB0'' 0)) [1] ([1] @ replicate 40000 7)
          = Inr ((projr (enter ''/dev/ttyUSB0'' 0))
                   \<lparr>stdout := stdout (projr (enter ''/dev/ttyUSB0'' 0)) @ [NothingToDo]\<rparr>)"
    using len by (intro C8_nothing_to_do [OF ne]) simp
  then show ?thesis
    using ne len by (simp add: enter_returns)
qed

text \<open>
  Without the two conditions the claim fails: 32769 bytes that all equal the baseline end
  in the address assertion, and an empty primary sequence with an empty baseline ends in
  \<open>UnboundLocalError\<close>; neither reports anything.
\<close>

theorem C8_nothing_to_do_counterexample:
  "raised (BbEeProg_write (projr (enter ''/dev/ttyUSB0'' 0))
             (replicate 32769 7) (replicate 32769 7)) = Some AssertionError
   \<and> raised (BbEeProg_write (projr (enter ''/dev/ttyUSB0'' 0)) [] []) = Some UnboundLocalError"
proof -
  define s0 where "s0 = projr (enter ''/dev/ttyUSB0'' 0)"
  define xs :: "int list" where "xs = replicate 32769 7"
  have v: "valid_session s0"
    unfolding s0_def by (rule enter_valid)
  have len: "(2::int) ^ 15 < int (length xs)"
    by (simp add: xs_def)
  have "raised (BbEeProg_write s0 xs xs) = Some AssertionError"
    using BbEeProg_write_overflow [OF v len, of xs] by auto
  moreover have "raised (BbEeProg_write s0 [] []) = Some UnboundLocalError"
    by (simp add: BbEeProg_write_def and_then_def)
  ultimately show ?thesis
    by (simp add: s0_def xs_def)
qed

text \<open>
  C9, as the code has it. For an empty primary sequence and an empty baseline the loop
  body never runs, the final report reads the variable \<open>addr\<close> that was never bound,
  and the call ends in \<open>UnboundLocalError\<close> with the state untouched. For an empty
  primary sequence and any baseline, nothing is sent to the port and \<open>write_byte\<close> is
  never called.
\<close>

theorem C9_empty_primary:
  "BbEeProg_write s [] [] = Inl (UnboundLocalError, s)
   \<and> serial (state_after (BbEeProg_write s [] old_data)) = serial s
   \<and> byte_writes (state_after (BbEeProg_write s [] old_data)) = byte_writes s"
proof (cases old_data)
  case Nil
  then show ?thesis
    by (simp add: BbEeProg_write_def and_then_def)
next
  case (Cons y ys)
  then show ?thesis
    by (simp add: BbEeProg_write_def and_then_def print_def)
qed

theorem C9_empty_primary_witness:
  "BbEeProg_write (projr (enter ''/dev/ttyUSB0'' 0)) [] []
     = Inl (UnboundLocalError, projr (enter ''/dev/ttyUSB0'' 0))
   \<and> serial (state_after (BbEeProg_write (projr (enter ''/dev/ttyUSB0'' 0)) [] [7])) = [3, 131]
   \<and> byte_writes (state_after (BbEeProg_write (projr (enter ''/dev/ttyUSB0'' 0)) [] [7])) = []"
  using C9_empty_primary [of "projr (enter ''/dev/ttyUSB0'' 0)" "[7]"]
  by (simp add: enter_returns)

text \<open>
  With a baseline that is not empty the claim fails: the loop body runs once (and
  breaks), which binds \<open>addr\<close> to 0, and the call returns after printing a report.
\<close>

theorem C9_empty_primary_counterexample:
  "raised (BbEeProg_write (projr (enter ''/dev/ttyUSB0'' 0)) [] [7]) = None
   \<and> stdout (state_after (BbEeProg_write (projr (enter ''/dev/ttyUSB0'' 0)) [] [7]))
       = [Wrote 0 0 1]"
  by (simp add: BbEeProg_write_def and_then_def print_def enter_returns)

text \<open>
  C10. \<open>__enter__\<close> returns after one chip write, of the write-disable bit to the
  high-address chip, whose two telegrams are all that is on the wire; after it, and after
  every call of \<open>write_byte\<close> that returns, the last value written to the high-address
  chip is a byte with bit 7 (the write-disable bit) set: \<open>0x80\<close> after \<open>__enter__\<close>,
  \<open>((address >> 8) | WRITE_DISABLE_BIT) & 0xFF\<close> after \<open>write_byte\<close>.
\<close>

theorem C10_write_disabled:
  "(\<exists>s. enter tty_dev t0 = Inr s \<and> valid_session s
         \<and> serial s = [0x03, 0x83]
         \<and> chip_writes s = [(t0, AddrHi, ADDR_HI_WRITE_DISABLE_BIT)]
         \<and> last_value (addr_hi s) = ADDR_HI_WRITE_DISABLE_BIT
         \<and> bit (last_value (addr_hi s)) 7)
   \<and> (valid_session s \<and> write_byte s addr byte = Inr s' \<longrightarrow>
         last_value (addr_hi s') = (drop_bit 8 addr OR ADDR_HI_WRITE_DISABLE_BIT) AND 0xFF
         \<and> 0 \<le> last_value (addr_hi s') \<and> last_value (addr_hi s') < 256
         \<and> bit (last_value (addr_hi s')) 7)"
proof (intro conjI impI)
  show "\<exists>s. enter tty_dev t0 = Inr s \<and> valid_session s
         \<and> serial s = [0x03, 0x83]
         \<and> chip_writes s = [(t0, AddrHi, ADDR_HI_WRITE_DISABLE_BIT)]
         \<and> last_value (addr_hi s) = ADDR_HI_WRITE_DISABLE_BIT
         \<and> bit (last_value (addr_hi s)) 7"
    by (simp add: enter_returns valid_session_def valid_chip_def bit_iff_odd
        ADDR_HI_WRITE_DISABLE_BIT_def)
next
  assume a: "valid_session s \<and> write_byte s addr byte = Inr s'"
  then have r: "addr \<le> 0x7FFF"
    by (auto dest: write_byte_returns)
  show last: "last_value (addr_hi s') = (drop_bit 8 addr OR ADDR_HI_WRITE_DISABLE_BIT) AND 0xFF"
    using write_byte_effect [OF _ r, of s byte] a by auto
  show "0 \<le> last_value (addr_hi s')" "last_value (addr_hi s') < 256"
    unfolding last by (rule masked_byte_range)+
  have "(0xFF::int) = mask 8"
    by (simp add: mask_eq_exp_minus_1)
  with last show "bit (last_value (addr_hi s')) 7"
    by (simp add: ADDR_HI_WRITE_DISABLE_BIT_def bit_and_iff bit_or_iff bit_mask_iff
        bit_push_bit_iff)
qed

theorem C10_write_disabled_witness:
  "let s0 = projr (enter ''/dev/ttyUSB0'' 0);
       s1 = projr (write_byte s0 0x1234 0x56)
   in valid_session s0 \<and> write_byte s0 0x1234 0x56 = Inr s1
      \<and> serial s0 = [0x03, 0x83] \<and> last_value (addr_hi s0) = 0x80
      \<and> last_value (addr_hi s1) = 0x92
      \<and> bit (last_value (addr_hi s0)) 7 \<and> bit (last_value (addr_hi s1)) 7"
proof -
  define s0 where "s0 = projr (enter ''/dev/ttyUSB0'' 0)"
  define s1 where "s1 = projr (write_byte s0 0x1234 0x56)"
  have v: "valid_session s0"
    unfolding s0_def by (rule enter_valid)
  have h1: "write_byte s0 0x1234 0x56 = Inr s1"
    unfolding s1_def s0_def by (simp add: run_defs)
  have "serial s0 = [0x03, 0x83] \<and> last_value (addr_hi s0) = 0x80
      \<and> last_value (addr_hi s1) = 0x92
      \<and> bit (last_value (addr_hi s0)) 7 \<and> bit (last_value (addr_hi s1)) 7"
    using C10_write_disabled [of "''/dev/ttyUSB0''" 0 s0 "0x1234" "0x56" s1] v h1
    by (auto simp add: s0_def ADDR_HI_WRITE_DISABLE_BIT_def)
  with v h1 show ?thesis
    by (simp add: s0_def s1_def)
qed

end
